theory Spec2Isabelle
  imports Complex_Main
begin

section \<open>The reservoir simulator \<open>syst_sim\<close>\<close>

text \<open>
  The notebook function being modelled (Python):
  \<^verbatim>\<open>
  def syst_sim(N,I,e,d,S0,Smax,env_min,Qreg):
      S = [0]*(N+1)
      spill = [0]*N
      env = [env_min]*N
      S[0] = S0
      for t in range(N):
          if env_min >= I[t] :
              env[t] = I[t]
          if env_min >= S[t] + I[t] - e[t]:
              env[t] = max(0,S[t] + I[t] - e[t])
          if d[t] >= S[t] + I[t] - e[t] - env[t]:
              Qreg[t] = min(Qreg[t],max(0,S[t] + I[t] - e[t] - env[t]))
          spill[t] = max(0,S[t] + I[t] - Qreg[t] - env[t] - e[t] - Smax)
          S[t+1] = S[t] + I[t] - Qreg[t] - env[t]- e[t] - spill[t]
      return S,env,spill,Qreg
  \<close>
  Volumes and flows are modelled as exact reals (the floating-point rounding of the
  Python numbers is left out), \<open>N\<close> as a Python integer.

  The four series \<open>I\<close>, \<open>e\<close>, \<open>d\<close> and \<open>Qreg\<close> are objects of the caller: the function
  receives references to them and assigns to \<open>Qreg[t]\<close> in place. They are therefore
  modelled as references into a store, which the function takes and returns. The arrays
  \<open>S\<close>, \<open>spill\<close> and \<open>env\<close> are created by the call and are held in a record of working
  arrays. An index outside a caller's series raises \<open>IndexError\<close>; the store at that
  moment is part of the outcome, since the assignments made so far remain visible to the
  caller.
\<close>

type_synonym ref = nat

type_synonym heap = "ref \<Rightarrow> real list"

datatype error = IndexError

record work =
  S :: "real list"
  spill :: "real list"
  env :: "real list"

text \<open>The last two statements of the loop body: spill and the next storage.\<close>

definition balance :: "ref \<Rightarrow> ref \<Rightarrow> real \<Rightarrow> ref \<Rightarrow> nat \<Rightarrow> heap \<Rightarrow> work \<Rightarrow> (error + work) \<times> heap" where
  "balance I e Smax Qreg t h w =
     (if \<not> t < length (h Qreg) then (Inl IndexError, h)
      else
        let w3 = w\<lparr>spill := (spill w)[t := max 0 (S w ! t + h I ! t - h Qreg ! t - env w ! t - h e ! t - Smax)]\<rparr>
        in (Inr (w3\<lparr>S := (S w3)[Suc t := S w3 ! t + h I ! t - h Qreg ! t - env w3 ! t - h e ! t - spill w3 ! t]\<rparr>), h))"

text \<open>One pass through the loop body, at index \<open>t\<close>.\<close>

definition step :: "ref \<Rightarrow> ref \<Rightarrow> ref \<Rightarrow> real \<Rightarrow> real \<Rightarrow> ref \<Rightarrow> nat \<Rightarrow> heap \<Rightarrow> work \<Rightarrow> (error + work) \<times> heap" where
  "step I e d Smax env_min Qreg t h w =
     (if \<not> t < length (h I) then (Inl IndexError, h)
      else
        let w1 = (if env_min \<ge> h I ! t then w\<lparr>env := (env w)[t := h I ! t]\<rparr> else w)
        in
          if \<not> t < length (h e) then (Inl IndexError, h)
          else
            let w2 = (if env_min \<ge> S w1 ! t + h I ! t - h e ! t
                      then w1\<lparr>env := (env w1)[t := max 0 (S w1 ! t + h I ! t - h e ! t)]\<rparr>
                      else w1)
            in
              if \<not> t < length (h d) then (Inl IndexError, h)
              else if h d ! t \<ge> S w2 ! t + h I ! t - h e ! t - env w2 ! t
              then
                (if \<not> t < length (h Qreg) then (Inl IndexError, h)
                 else balance I e Smax Qreg t
                        (h(Qreg := (h Qreg)[t := min (h Qreg ! t) (max 0 (S w2 ! t + h I ! t - h e ! t - env w2 ! t))]))
                        w2)
              else balance I e Smax Qreg t h w2)"

text \<open>The \<open>for\<close> loop over \<open>range(N)\<close>; an exception ends it.\<close>

fun loop :: "ref \<Rightarrow> ref \<Rightarrow> ref \<Rightarrow> real \<Rightarrow> real \<Rightarrow> ref \<Rightarrow> nat list \<Rightarrow> heap \<Rightarrow> work \<Rightarrow> (error + work) \<times> heap" where
  "loop I e d Smax env_min Qreg [] h w = (Inr w, h)"
| "loop I e d Smax env_min Qreg (t # ts) h w =
     (case step I e d Smax env_min Qreg t h w of
        (Inl err, h') \<Rightarrow> (Inl err, h')
      | (Inr w', h') \<Rightarrow> loop I e d Smax env_min Qreg ts h' w')"

text \<open>
  The whole function. For \<open>N < 0\<close> the list \<open>[0]*(N+1)\<close> is empty and \<open>S[0] = S0\<close>
  raises. The fourth component of the result is the reference \<open>Qreg\<close> that was passed
  in: the function returns the caller's own object.
\<close>

definition syst_sim ::
  "int \<Rightarrow> ref \<Rightarrow> ref \<Rightarrow> ref \<Rightarrow> real \<Rightarrow> real \<Rightarrow> real \<Rightarrow> ref \<Rightarrow> heap
     \<Rightarrow> (error + real list \<times> real list \<times> real list \<times> ref) \<times> heap" where
  "syst_sim N I e d S0 Smax env_min Qreg h =
     (let S_new = replicate (nat (N + 1)) 0;
          spill_new = replicate (nat N) 0;
          env_new = replicate (nat N) env_min
      in
        if \<not> 0 < length S_new then (Inl IndexError, h)
        else
          case loop I e d Smax env_min Qreg [0..<nat N] h
                 \<lparr>S = S_new[0 := S0], spill = spill_new, env = env_new\<rparr> of
            (Inl err, h') \<Rightarrow> (Inl err, h')
          | (Inr w, h') \<Rightarrow> (Inr (S w, env w, spill w, Qreg), h'))"


subsection \<open>Closed forms of the loop body, used in the proofs\<close>

text \<open>
  The value that the two environmental-flow tests leave in \<open>env[t]\<close> (\<open>env0\<close> is the
  entry before the step), and the value that the release test leaves in \<open>Qreg[t]\<close>
  (\<open>u\<close> is the entry before the step, \<open>rem\<close> the water left after evaporation and
  environmental release). Lemma \<open>step_long\<close> shows that the loop body computes them.
\<close>

definition env_rule :: "real \<Rightarrow> real \<Rightarrow> real \<Rightarrow> real \<Rightarrow> real \<Rightarrow> real" where
  "env_rule env0 env_min i s ev =
     (if env_min \<ge> s + i - ev then max 0 (s + i - ev) else if env_min \<ge> i then i else env0)"

definition release_rule :: "real \<Rightarrow> real \<Rightarrow> real \<Rightarrow> real" where
  "release_rule dt u rem = (if dt \<ge> rem then min u (max 0 rem) else u)"

text \<open>
  What one step leaves at index \<open>t\<close>: the tests read the store \<open>h\<close> of the call's
  start, the last two statements read the store after the assignment to \<open>Qreg[t]\<close>.
\<close>

definition step_rel ::
  "ref \<Rightarrow> ref \<Rightarrow> ref \<Rightarrow> real \<Rightarrow> real \<Rightarrow> ref \<Rightarrow> heap \<Rightarrow> heap \<Rightarrow> real list \<Rightarrow> real list \<Rightarrow> real list \<Rightarrow> real \<Rightarrow> nat \<Rightarrow> bool" where
  "step_rel I e d Smax env_min Qreg h h' Sv envv spillv env0 t \<longleftrightarrow>
     envv ! t = env_rule env0 env_min (h I ! t) (Sv ! t) (h e ! t) \<and>
     h' Qreg ! t = release_rule (h d ! t) (h Qreg ! t) (Sv ! t + h I ! t - h e ! t - envv ! t) \<and>
     spillv ! t = max 0 (Sv ! t + h' I ! t - h' Qreg ! t - envv ! t - h' e ! t - Smax) \<and>
     Sv ! Suc t = Sv ! t + h' I ! t - h' Qreg ! t - envv ! t - h' e ! t - spillv ! t"

text \<open>The loop invariant after \<open>n\<close> steps, from store \<open>h\<close> and working arrays \<open>w\<close>.\<close>

definition sim_inv ::
  "ref \<Rightarrow> ref \<Rightarrow> ref \<Rightarrow> real \<Rightarrow> real \<Rightarrow> ref \<Rightarrow> heap \<Rightarrow> work \<Rightarrow> nat \<Rightarrow> heap \<Rightarrow> work \<Rightarrow> bool" where
  "sim_inv I e d Smax env_min Qreg h w n h' w' \<longleftrightarrow>
     length (S w') = length (S w) \<and> length (env w') = length (env w) \<and>
     length (spill w') = length (spill w) \<and>
     (\<forall>r. length (h' r) = length (h r)) \<and> (\<forall>r. r \<noteq> Qreg \<longrightarrow> h' r = h r) \<and>
     (\<forall>r k. n \<le> k \<longrightarrow> h' r ! k = h r ! k) \<and> (\<forall>k. n \<le> k \<longrightarrow> env w' ! k = env w ! k) \<and>
     S w' ! 0 = S w ! 0 \<and>
     n \<le> length (h I) \<and> n \<le> length (h e) \<and> n \<le> length (h d) \<and> n \<le> length (h Qreg) \<and>
     (\<forall>t<n. step_rel I e d Smax env_min Qreg h h' (S w') (env w') (spill w') (env w ! t) t)"

text \<open>A store holding four series at the references 0, 1, 2 and 3, for concrete runs.\<close>

definition store4 :: "real list \<Rightarrow> real list \<Rightarrow> real list \<Rightarrow> real list \<Rightarrow> heap" where
  "store4 Iv ev dv Qv = (\<lambda>r. [])(0 := Iv, 1 := ev, 2 := dv, 3 := Qv)"

section \<open>The log-exponential release policy\<close>

text \<open>
  The notebook calls \<open>op_logexp_1res_v1(param)\<close> with
  \<open>param = [u_frac_min, s_frac_ref, alpha, b, u_ref]\<close>; the function itself is imported
  from a module that is not part of the sources at hand, which only describe its two
  segments. Real powers are \<open>powr\<close>, the natural logarithm is \<open>ln\<close>.
\<close>

text \<open>
  Modelled from the spec: the error of the policy evaluators (their code is missing),
  \<open>InvalidParameter\<close> for malformed policy-shape parameters.
\<close>

datatype policy_error = InvalidParameter

text \<open>
  Modelled from the spec: the logarithmic segment of \<open>log_exponential_release\<close> (the body
  of \<open>op_logexp_1res_v1\<close> is missing), \<open>u_ref * (u_frac_min + ln(k * s_frac^alpha + 1))\<close>
  with \<open>k = 1 / (s_frac_ref^alpha) * (exp(1 - u_frac_min) - 1)\<close>.
\<close>

definition log_branch :: "real \<Rightarrow> real \<Rightarrow> real \<Rightarrow> real \<Rightarrow> real \<Rightarrow> real" where
  "log_branch u_frac_min s_frac_ref alpha u_ref s_frac =
     (let k = 1 / (s_frac_ref powr alpha) * (exp (1 - u_frac_min) - 1)
      in u_ref * (u_frac_min + ln (k * s_frac powr alpha + 1)))"

text \<open>
  Modelled from the spec: the exponential segment of \<open>log_exponential_release\<close> (the body
  of \<open>op_logexp_1res_v1\<close> is missing), \<open>u_ref * exp(b * (s_frac - s_frac_ref)^2)\<close>.
\<close>

definition exp_branch :: "real \<Rightarrow> real \<Rightarrow> real \<Rightarrow> real \<Rightarrow> real" where
  "exp_branch s_frac_ref b u_ref s_frac = u_ref * exp (b * (s_frac - s_frac_ref) ^ 2)"

text \<open>
  Modelled from the spec: the release curve of \<open>log_exponential_release\<close> (the body of
  \<open>op_logexp_1res_v1\<close> is missing): the logarithmic segment for
  \<open>storage_fraction < s_frac_ref\<close>, the exponential one for
  \<open>storage_fraction \<ge> s_frac_ref\<close>.
\<close>

definition log_exponential_curve :: "real \<Rightarrow> real \<Rightarrow> real \<Rightarrow> real \<Rightarrow> real \<Rightarrow> real \<Rightarrow> real" where
  "log_exponential_curve u_frac_min s_frac_ref alpha b u_ref s_frac =
     (if s_frac < s_frac_ref then log_branch u_frac_min s_frac_ref alpha u_ref s_frac
      else exp_branch s_frac_ref b u_ref s_frac)"

text \<open>
  Modelled from the spec: the operation \<open>log_exponential_release\<close> with its error
  condition (the body of \<open>op_logexp_1res_v1\<close> is missing): it fails with
  \<open>InvalidParameter\<close> if \<open>s_frac_ref\<close> is not in (0,1) or \<open>u_frac_min \<le> 0\<close>.
\<close>

definition log_exponential_release ::
  "real \<Rightarrow> real \<Rightarrow> real \<Rightarrow> real \<Rightarrow> real \<Rightarrow> real \<Rightarrow> policy_error + real" where
  "log_exponential_release u_frac_min s_frac_ref alpha b u_ref s_frac =
     (if \<not> (0 < s_frac_ref \<and> s_frac_ref < 1) \<or> u_frac_min \<le> 0 then Inl InvalidParameter
      else Inr (log_exponential_curve u_frac_min s_frac_ref alpha b u_ref s_frac))"

section \<open>Proofs\<close>

subsection \<open>One step\<close>

lemma balance_eq:
  "balance I e Smax Qreg t h w =
     (if t < length (h Qreg)
      then (Inr (w\<lparr>spill := (spill w)[t := max 0 (S w ! t + h I ! t - h Qreg ! t - env w ! t - h e ! t - Smax)],
            S := (S w)[Suc t := S w ! t + h I ! t - h Qreg ! t - env w ! t - h e ! t
                   - (spill w)[t := max 0 (S w ! t + h I ! t - h Qreg ! t - env w ! t - h e ! t - Smax)] ! t]\<rparr>), h)
      else (Inl IndexError, h))"
  by (simp add: balance_def Let_def)

lemma step_short:
  "\<not> (t < length (h I) \<and> t < length (h e) \<and> t < length (h d) \<and> t < length (h Qreg))
     \<Longrightarrow> step I e d Smax env_min Qreg t h w = (Inl IndexError, h)"
  by (simp add: step_def Let_def balance_eq)

lemma step_long:
  fixes I e d Qreg :: ref and Smax env_min :: real and t :: nat and h :: heap and w :: work
  assumes len: "t < length (h I)" "t < length (h e)" "t < length (h d)" "t < length (h Qreg)"
    and tenv: "t < length (env w)"
  defines "ev \<equiv> env_rule (env w ! t) env_min (h I ! t) (S w ! t) (h e ! t)"
  defines "q \<equiv> release_rule (h d ! t) (h Qreg ! t) (S w ! t + h I ! t - h e ! t - ev)"
  defines "h' \<equiv> h(Qreg := (h Qreg)[t := q])"
  defines "sp \<equiv> max 0 (S w ! t + h' I ! t - h' Qreg ! t - ev - h' e ! t - Smax)"
  shows "step I e d Smax env_min Qreg t h w =
           (Inr (w\<lparr>env := (env w)[t := ev], spill := (spill w)[t := sp],
                    S := (S w)[Suc t := S w ! t + h' I ! t - h' Qreg ! t - ev - h' e ! t - (spill w)[t := sp] ! t]\<rparr>), h')"
proof -
  let ?w1 = "if env_min \<ge> h I ! t then w\<lparr>env := (env w)[t := h I ! t]\<rparr> else w"
  let ?a = "S w ! t + h I ! t - h e ! t"
  let ?w2 = "if env_min \<ge> S ?w1 ! t + h I ! t - h e ! t
             then ?w1\<lparr>env := (env ?w1)[t := max 0 (S ?w1 ! t + h I ! t - h e ! t)]\<rparr> else ?w1"
  have w2: "?w2 = w\<lparr>env := (env w)[t := ev]\<rparr>"
    by (intro work.equality) (simp_all add: ev_def env_rule_def)
  have "step I e d Smax env_min Qreg t h w =
     (if h d ! t \<ge> S ?w2 ! t + h I ! t - h e ! t - env ?w2 ! t
      then balance I e Smax Qreg t (h(Qreg := (h Qreg)[t := min (h Qreg ! t) (max 0 (S ?w2 ! t + h I ! t - h e ! t - env ?w2 ! t))])) ?w2
      else balance I e Smax Qreg t h ?w2)"
    unfolding step_def Let_def using len by (simp only: if_True if_False simp_thms)
  then have st: "step I e d Smax env_min Qreg t h w =
     (if h d ! t \<ge> ?a - ev
      then balance I e Smax Qreg t (h(Qreg := (h Qreg)[t := min (h Qreg ! t) (max 0 (?a - ev))])) (w\<lparr>env := (env w)[t := ev]\<rparr>)
      else balance I e Smax Qreg t h (w\<lparr>env := (env w)[t := ev]\<rparr>))"
    using tenv by (simp only: w2) simp
  have hid: "h = h(Qreg := (h Qreg)[t := h Qreg ! t])" by simp
  show ?thesis
  proof (cases "h d ! t \<ge> ?a - ev")
    case True
    then have q: "q = min (h Qreg ! t) (max 0 (?a - ev))" by (simp add: q_def release_rule_def)
    show ?thesis using True len tenv
      by (simp add: st balance_eq h'_def sp_def q[symmetric])
  next
    case False
    then have q: "q = h Qreg ! t" by (simp add: q_def release_rule_def)
    have hh: "h' = h" by (simp add: h'_def q)
    show ?thesis using False len tenv
      by (simp add: st balance_eq hh sp_def)
  qed
qed

lemma step_Inl:
  assumes "step I e d Smax env_min Qreg t h w = (Inl err, h')" and "t < length (env w)"
  shows "h' = h"
    and "\<not> (t < length (h I) \<and> t < length (h e) \<and> t < length (h d) \<and> t < length (h Qreg))"
proof -
  show *: "\<not> (t < length (h I) \<and> t < length (h e) \<and> t < length (h d) \<and> t < length (h Qreg))"
    using assms step_long[of t h I e d Qreg w Smax env_min] by auto
  show "h' = h"
    using assms(1) step_short[OF *, of Smax env_min w] by simp
qed

lemma sim_inv_0: "sim_inv I e d Smax env_min Qreg h w 0 h w"
  by (simp add: sim_inv_def)

lemma step_rel_cong:
  assumes "step_rel I e d Smax env_min Qreg h h1 S1 env1 spill1 env0 t"
    and "S2 ! t = S1 ! t" "S2 ! Suc t = S1 ! Suc t" "env2 ! t = env1 ! t" "spill2 ! t = spill1 ! t"
    and "\<And>r. h2 r ! t = h1 r ! t"
  shows "step_rel I e d Smax env_min Qreg h h2 S2 env2 spill2 env0 t"
  using assms unfolding step_rel_def by (simp only:)

lemma sim_inv_step:
  fixes I e d Qreg :: ref and Smax env_min :: real and n :: nat and h h1 h2 :: heap and w w1 w2 :: work
  assumes inv: "sim_inv I e d Smax env_min Qreg h w n h1 w1"
    and st: "step I e d Smax env_min Qreg n h1 w1 = (Inr w2, h2)"
    and n: "n < length (env w)" "n < length (spill w)" "Suc n < length (S w)"
  shows "sim_inv I e d Smax env_min Qreg h w (Suc n) h2 w2"
proof -
  have lS: "length (S w1) = length (S w)" and le: "length (env w1) = length (env w)"
    and lsp: "length (spill w1) = length (spill w)"
    and lh: "\<And>r. length (h1 r) = length (h r)"
    and fr: "\<And>r. r \<noteq> Qreg \<Longrightarrow> h1 r = h r"
    and uh: "\<And>r k. n \<le> k \<Longrightarrow> h1 r ! k = h r ! k"
    and ue: "\<And>k. n \<le> k \<Longrightarrow> env w1 ! k = env w ! k"
    and S0: "S w1 ! 0 = S w ! 0"
    and rel: "\<And>t. t < n \<Longrightarrow> step_rel I e d Smax env_min Qreg h h1 (S w1) (env w1) (spill w1) (env w ! t) t"
    using inv unfolding sim_inv_def by blast+
  have lens: "n < length (h1 I)" "n < length (h1 e)" "n < length (h1 d)" "n < length (h1 Qreg)"
    using st step_short[of n h1 I e d Qreg Smax env_min w1] by auto
  have tenv: "n < length (env w1)" using n le by simp
  define ev where "ev = env_rule (env w1 ! n) env_min (h1 I ! n) (S w1 ! n) (h1 e ! n)"
  define q where "q = release_rule (h1 d ! n) (h1 Qreg ! n) (S w1 ! n + h1 I ! n - h1 e ! n - ev)"
  define sp where "sp = max 0 (S w1 ! n + h2 I ! n - h2 Qreg ! n - ev - h2 e ! n - Smax)"
  from step_long[OF lens tenv, where Smax=Smax and env_min=env_min] st
  have h2: "h2 = h1(Qreg := (h1 Qreg)[n := q])"
    and w2: "w2 = w1\<lparr>env := (env w1)[n := ev], spill := (spill w1)[n := sp],
                    S := (S w1)[Suc n := S w1 ! n + h2 I ! n - h2 Qreg ! n - ev - h2 e ! n - (spill w1)[n := sp] ! n]\<rparr>"
    unfolding ev_def q_def sp_def by simp_all
  have env2: "env w2 = (env w1)[n := ev]" and spill2: "spill w2 = (spill w1)[n := sp]"
    and S2: "S w2 = (S w1)[Suc n := S w1 ! n + h2 I ! n - h2 Qreg ! n - ev - h2 e ! n - sp]"
    using n lsp by (simp_all add: w2)
  have h2q: "h2 Qreg ! n = q" using lens by (simp add: h2)
  have h2k: "\<And>r k. k \<noteq> n \<Longrightarrow> h2 r ! k = h1 r ! k" by (simp add: h2)
  have reln: "step_rel I e d Smax env_min Qreg h h2 (S w2) (env w2) (spill w2) (env w ! n) n"
    unfolding step_rel_def
    using n lS le lsp tenv h2q uh[of n] ue[of n]
    by (simp add: env2 spill2 S2 ev_def q_def sp_def)
  have relt: "step_rel I e d Smax env_min Qreg h h2 (S w2) (env w2) (spill w2) (env w ! t) t"
    if "t < Suc n" for t
  proof (cases "t = n")
    case True then show ?thesis using reln by simp
  next
    case False
    then have t: "t < n" using that by simp
    show ?thesis
      by (rule step_rel_cong[OF rel[OF t]]) (use t in \<open>simp_all add: S2 env2 spill2 h2k\<close>)
  qed
  show ?thesis
    unfolding sim_inv_def
  proof (intro conjI allI impI)
    show "length (S w2) = length (S w)" by (simp add: S2 lS)
    show "length (env w2) = length (env w)" by (simp add: env2 le)
    show "length (spill w2) = length (spill w)" by (simp add: spill2 lsp)
    show "length (h2 r) = length (h r)" for r by (simp add: h2 lh)
    show "h2 r = h r" if "r \<noteq> Qreg" for r using that by (simp add: h2 fr)
    show "h2 r ! k = h r ! k" if "Suc n \<le> k" for r k using that by (simp add: h2k uh)
    show "env w2 ! k = env w ! k" if "Suc n \<le> k" for k using that by (simp add: env2 ue)
    show "S w2 ! 0 = S w ! 0" by (simp add: S2 S0)
    show "Suc n \<le> length (h I)" using lens(1) by (simp add: lh)
    show "Suc n \<le> length (h e)" using lens(2) by (simp add: lh)
    show "Suc n \<le> length (h d)" using lens(3) by (simp add: lh)
    show "Suc n \<le> length (h Qreg)" using lens(4) by (simp add: lh)
    show "step_rel I e d Smax env_min Qreg h h2 (S w2) (env w2) (spill w2) (env w ! t) t"
      if "t < Suc n" for t using relt[OF that] .
  qed
qed

subsection \<open>The loop\<close>

lemma loop_append:
  "loop I e d Smax env_min Qreg (ts @ us) h w =
     (case loop I e d Smax env_min Qreg ts h w of
        (Inl err, h') \<Rightarrow> (Inl err, h')
      | (Inr w', h') \<Rightarrow> loop I e d Smax env_min Qreg us h' w')"
  by (induction ts arbitrary: h w) (simp_all split: prod.splits sum.splits)

lemma loop_Suc:
  "loop I e d Smax env_min Qreg [0..<Suc n] h w =
     (case loop I e d Smax env_min Qreg [0..<n] h w of
        (Inl err, h') \<Rightarrow> (Inl err, h')
      | (Inr w', h') \<Rightarrow> step I e d Smax env_min Qreg n h' w')"
proof -
  have one: "loop I e d Smax env_min Qreg [n] h' w' = step I e d Smax env_min Qreg n h' w'" for h' w'
    by (simp split: prod.splits sum.splits)
  show ?thesis
    by (simp only: upt_Suc_append[OF le0] loop_append one)
qed

lemma loop_upt_inv:
  assumes "loop I e d Smax env_min Qreg [0..<n] h w = (Inr w', h')"
    and "n \<le> length (env w)" "n \<le> length (spill w)" "n < length (S w)"
  shows "sim_inv I e d Smax env_min Qreg h w n h' w'"
  using assms
proof (induction n arbitrary: w' h')
  case 0
  then show ?case by (simp add: sim_inv_0)
next
  case (Suc n)
  obtain res h1 where l: "loop I e d Smax env_min Qreg [0..<n] h w = (res, h1)"
    by (cases "loop I e d Smax env_min Qreg [0..<n] h w")
  with Suc.prems(1) obtain w1 where res: "res = Inr w1"
    by (cases res) (simp_all add: loop_Suc del: upt_Suc)
  have st: "step I e d Smax env_min Qreg n h1 w1 = (Inr w', h')"
    using Suc.prems(1) l res by (simp add: loop_Suc del: upt_Suc)
  have "sim_inv I e d Smax env_min Qreg h w n h1 w1"
    using Suc.IH[of w1 h1] l res Suc.prems by simp
  then show ?case
    using st Suc.prems by (intro sim_inv_step[where ?h1.0=h1 and ?w1.0=w1]) simp_all
qed

lemma loop_upt_ok:
  assumes "n \<le> length (env w)" "n \<le> length (spill w)" "n < length (S w)"
    and "n \<le> length (h I)" "n \<le> length (h e)" "n \<le> length (h d)" "n \<le> length (h Qreg)"
  shows "\<exists>w' h'. loop I e d Smax env_min Qreg [0..<n] h w = (Inr w', h')"
  using assms
proof (induction n)
  case 0
  then show ?case by simp
next
  case (Suc n)
  then obtain w1 h1 where l: "loop I e d Smax env_min Qreg [0..<n] h w = (Inr w1, h1)"
    by fastforce
  have inv: "sim_inv I e d Smax env_min Qreg h w n h1 w1"
    using loop_upt_inv[OF l] Suc.prems by simp
  then have lh: "\<And>r. length (h1 r) = length (h r)" and le: "length (env w1) = length (env w)"
    unfolding sim_inv_def by blast+
  have "\<exists>w' h'. step I e d Smax env_min Qreg n h1 w1 = (Inr w', h')"
    using step_long[of n h1 I e d Qreg w1 Smax env_min] Suc.prems by (simp add: lh le)
  then show ?case
    using l by (simp add: loop_Suc del: upt_Suc)
qed

lemma loop_upt_heap:
  assumes "loop I e d Smax env_min Qreg [0..<n] h w = (res, h')"
    and "n \<le> length (env w)" "n \<le> length (spill w)" "n < length (S w)"
  shows "(\<forall>r. length (h' r) = length (h r)) \<and> (\<forall>r. r \<noteq> Qreg \<longrightarrow> h' r = h r) \<and>
         (\<forall>r k. n \<le> k \<longrightarrow> h' r ! k = h r ! k)"
  using assms
proof (induction n arbitrary: res h')
  case 0
  then show ?case by simp
next
  case (Suc n)
  obtain res1 h1 where l: "loop I e d Smax env_min Qreg [0..<n] h w = (res1, h1)"
    by (cases "loop I e d Smax env_min Qreg [0..<n] h w")
  have ih: "(\<forall>r. length (h1 r) = length (h r)) \<and> (\<forall>r. r \<noteq> Qreg \<longrightarrow> h1 r = h r) \<and>
         (\<forall>r k. n \<le> k \<longrightarrow> h1 r ! k = h r ! k)"
    using Suc.IH[OF l] Suc.prems by simp
  show ?case
  proof (cases res1)
    case (Inl err)
    then have "h' = h1" using Suc.prems(1) l by (simp add: loop_Suc del: upt_Suc)
    then show ?thesis using ih by simp
  next
    case (Inr w1)
    then have st: "step I e d Smax env_min Qreg n h1 w1 = (res, h')"
      using Suc.prems(1) l by (simp add: loop_Suc del: upt_Suc)
    show ?thesis
    proof (cases res)
      case (Inl err)
      have "length (env w1) = length (env w)"
        using loop_upt_inv[of I e d Smax env_min Qreg n h w w1 h1] l \<open>res1 = Inr w1\<close> Suc.prems
        by (simp add: sim_inv_def)
      then have "h' = h1" using st Inl step_Inl(1)[of I e d Smax env_min Qreg n h1 w1 err h'] Suc.prems
        by simp
      then show ?thesis using ih by simp
    next
      case (Inr w2)
      have "sim_inv I e d Smax env_min Qreg h w (Suc n) h' w2"
        using loop_upt_inv[of I e d Smax env_min Qreg "Suc n" h w w2 h'] Suc.prems Inr by simp
      then show ?thesis unfolding sim_inv_def by blast
    qed
  qed
qed

subsection \<open>The whole call\<close>

lemma syst_sim_Inr:
  assumes "syst_sim N I e d S0 Smax env_min Qreg h = (Inr (Sv, envv, spillv, q), h')"
  shows "0 \<le> N" and "q = Qreg"
    and "length Sv = Suc (nat N)" and "length envv = nat N" and "length spillv = nat N"
    and "Sv ! 0 = S0"
    and "\<And>r. length (h' r) = length (h r)"
    and "\<And>r. r \<noteq> Qreg \<Longrightarrow> h' r = h r"
    and "\<And>r k. nat N \<le> k \<Longrightarrow> h' r ! k = h r ! k"
    and "nat N \<le> length (h I)" and "nat N \<le> length (h e)"
    and "nat N \<le> length (h d)" and "nat N \<le> length (h Qreg)"
    and "\<And>t. t < nat N \<Longrightarrow> step_rel I e d Smax env_min Qreg h h' Sv envv spillv env_min t"
proof -
  let ?w0 = "\<lparr>S = (replicate (nat (N + 1)) 0)[0 := S0], spill = replicate (nat N) 0,
              env = replicate (nat N) env_min\<rparr>"
  show N: "0 \<le> N"
    using assms by (cases "0 \<le> N") (simp_all add: syst_sim_def)
  obtain res h1 where l: "loop I e d Smax env_min Qreg [0..<nat N] h ?w0 = (res, h1)"
    by (cases "loop I e d Smax env_min Qreg [0..<nat N] h ?w0")
  have ss: "syst_sim N I e d S0 Smax env_min Qreg h =
     (case (res, h1) of (Inl err, h') \<Rightarrow> (Inl err, h')
          | (Inr w, h') \<Rightarrow> (Inr (S w, env w, spill w, Qreg), h'))"
    using N by (simp add: syst_sim_def l)
  then obtain w where res: "res = Inr w"
    using assms by (cases res) simp_all
  have eqs: "Sv = S w" "envv = env w" "spillv = spill w" "q = Qreg" "h' = h1"
    using assms ss res by simp_all
  show "q = Qreg" by fact
  have nat1: "nat (N + 1) = Suc (nat N)" using N by simp
  have inv: "sim_inv I e d Smax env_min Qreg h ?w0 (nat N) h' w"
    using l res eqs(5) by (intro loop_upt_inv) (simp_all add: nat1)
  then have lS: "length (S w) = length (S ?w0)" and le: "length (env w) = length (env ?w0)"
    and lsp: "length (spill w) = length (spill ?w0)"
    and lh: "\<And>r. length (h' r) = length (h r)"
    and fr: "\<And>r. r \<noteq> Qreg \<Longrightarrow> h' r = h r"
    and uh: "\<And>r k. nat N \<le> k \<Longrightarrow> h' r ! k = h r ! k"
    and S0: "S w ! 0 = S ?w0 ! 0"
    and bd: "nat N \<le> length (h I)" "nat N \<le> length (h e)" "nat N \<le> length (h d)"
      "nat N \<le> length (h Qreg)"
    and rel: "\<And>t. t < nat N \<Longrightarrow> step_rel I e d Smax env_min Qreg h h' (S w) (env w) (spill w) (env ?w0 ! t) t"
    unfolding sim_inv_def by blast+
  show "length Sv = Suc (nat N)" using lS by (simp add: eqs nat1)
  show "length envv = nat N" using le by (simp add: eqs)
  show "length spillv = nat N" using lsp by (simp add: eqs)
  show "Sv ! 0 = S0" using S0 by (simp add: eqs nat1)
  show "length (h' r) = length (h r)" for r by (rule lh)
  show "h' r = h r" if "r \<noteq> Qreg" for r using that by (rule fr)
  show "h' r ! k = h r ! k" if "nat N \<le> k" for r k using that by (rule uh)
  show "nat N \<le> length (h I)" "nat N \<le> length (h e)" "nat N \<le> length (h d)"
    "nat N \<le> length (h Qreg)" by (rule bd)+
  show "step_rel I e d Smax env_min Qreg h h' Sv envv spillv env_min t" if "t < nat N" for t
    using rel[OF that] that by (simp add: eqs)
qed

subsection \<open>Concrete runs\<close>

text \<open>
  Calls on small inputs, evaluated by rewriting. The references 0, 1, 2 and 3 hold the
  series \<open>I\<close>, \<open>e\<close>, \<open>d\<close> and \<open>Qreg\<close>.
\<close>

lemmas run_simps = syst_sim_def step_def balance_def store4_def eval_nat_numeral

lemma run_scenario1:
  "syst_sim 1 0 1 2 50 100 2 3 (store4 [10] [0] [5] [5]) =
     (Inr ([50, 53], [2], [0], 3), store4 [10] [0] [5] [5])"
  by (simp add: run_simps)

lemma run_deficit:
  "syst_sim 1 0 1 2 3 100 4 3 (store4 [0] [0] [5] [5]) =
     (Inr ([3, 0], [3], [0], 3), store4 [0] [0] [5] [0])"
  by (simp add: run_simps)

lemma run_spill:
  "syst_sim 1 0 1 2 90 100 2 3 (store4 [60] [0] [5] [5]) =
     (Inr ([90, 100], [2], [43], 3), store4 [60] [0] [5] [5])"
  by (simp add: run_simps)

lemma run_evaporation:
  "syst_sim 1 0 1 2 1 100 0 3 (store4 [0] [5] [0] [0]) =
     (Inr ([1, - 4], [0], [0], 3), store4 [0] [5] [0] [0])"
  by (simp add: run_simps)

lemma run_overdraw:
  "syst_sim 1 0 1 2 10 100 0 3 (store4 [0] [0] [0] [50]) =
     (Inr ([10, - 40], [0], [0], 3), store4 [0] [0] [0] [50])"
  by (simp add: run_simps)

lemma run_overfull:
  "syst_sim 1 0 1 2 200 100 2 3 (store4 [10] [0] [5] [5]) =
     (Inr ([200, 100], [2], [103], 3), store4 [10] [0] [5] [5])"
  by (simp add: run_simps)

lemma run_short:
  "syst_sim 2 0 1 2 3 100 4 3 (store4 [0] [0] [5] [5]) =
     (Inl IndexError, store4 [0] [0] [5] [0])"
  by (simp add: run_simps)

lemma run_low_inflow:
  "syst_sim 1 0 1 2 5 100 6 3 (store4 [1] [0] [0] [0]) =
     (Inr ([5, 0], [6], [0], 3), store4 [1] [0] [0] [0])"
  by (simp add: run_simps)

lemma run_two_steps:
  "syst_sim 2 0 1 2 90 100 2 3 (store4 [60, 0] [0, 0] [5, 0] [5, 50]) =
     (Inr ([90, 100, 50], [2, 0], [43, 0], 3), store4 [60, 0] [0, 0] [5, 0] [5, 50])"
  by (simp add: run_simps)

lemma run_inflow_cap:
  "syst_sim 1 0 1 2 50 100 2 3 (store4 [1] [0] [5] [5]) =
     (Inr ([50, 45], [1], [0], 3), store4 [1] [0] [5] [5])"
  by (simp add: run_simps)

lemma run_long_release:
  "syst_sim 1 0 1 2 3 100 4 3 (store4 [0] [0] [5] [5, 7]) =
     (Inr ([3, 0], [3], [0], 3), store4 [0] [0] [5] [0, 7])"
  by (simp add: run_simps)

lemma syst_sim_step:
  assumes "syst_sim N I e d S0 Smax env_min Qreg h = (Inr (Sv, envv, spillv, q), h')"
    and "int t < N"
  shows "envv ! t = env_rule env_min env_min (h I ! t) (Sv ! t) (h e ! t)"
    and "h' q ! t = release_rule (h d ! t) (h Qreg ! t) (Sv ! t + h I ! t - h e ! t - envv ! t)"
    and "spillv ! t = max 0 (Sv ! t + h' I ! t - h' q ! t - envv ! t - h' e ! t - Smax)"
    and "Sv ! Suc t = Sv ! t + h' I ! t - h' q ! t - envv ! t - h' e ! t - spillv ! t"
proof -
  have "t < nat N" using assms(2) by simp
  from syst_sim_Inr(14)[OF assms(1) this]
  have "step_rel I e d Smax env_min q h h' Sv envv spillv env_min t"
    by (simp only: syst_sim_Inr(2)[OF assms(1)])
  then show "envv ! t = env_rule env_min env_min (h I ! t) (Sv ! t) (h e ! t)"
    and "h' q ! t = release_rule (h d ! t) (h Qreg ! t) (Sv ! t + h I ! t - h e ! t - envv ! t)"
    and "spillv ! t = max 0 (Sv ! t + h' I ! t - h' q ! t - envv ! t - h' e ! t - Smax)"
    and "Sv ! Suc t = Sv ! t + h' I ! t - h' q ! t - envv ! t - h' e ! t - spillv ! t"
    unfolding step_rel_def syst_sim_Inr(2)[OF assms(1)] by blast+
qed

lemma syst_sim_heap:
  assumes "syst_sim N I e d S0 Smax env_min Qreg h = (res, h')"
  shows "length (h' r) = length (h r)"
    and "r \<noteq> Qreg \<Longrightarrow> h' r = h r"
    and "N \<le> int k \<Longrightarrow> h' r ! k = h r ! k"
proof -
  let ?w0 = "\<lparr>S = (replicate (nat (N + 1)) 0)[0 := S0], spill = replicate (nat N) 0,
              env = replicate (nat N) env_min\<rparr>"
  have *: "(\<forall>r. length (h' r) = length (h r)) \<and> (\<forall>r. r \<noteq> Qreg \<longrightarrow> h' r = h r) \<and>
         (\<forall>r k. nat N \<le> k \<longrightarrow> h' r ! k = h r ! k)"
  proof (cases "0 \<le> N")
    case False
    then have "h' = h" using assms by (simp add: syst_sim_def)
    then show ?thesis by simp
  next
    case True
    obtain res1 h1 where l: "loop I e d Smax env_min Qreg [0..<nat N] h ?w0 = (res1, h1)"
      by (cases "loop I e d Smax env_min Qreg [0..<nat N] h ?w0")
    have "h' = h1"
      using assms True l by (cases res1) (simp_all add: syst_sim_def)
    moreover have "nat (N + 1) = Suc (nat N)" using True by simp
    ultimately show ?thesis
      using loop_upt_heap[OF l] by simp
  qed
  show "length (h' r) = length (h r)" using * by blast
  show "h' r = h r" if "r \<noteq> Qreg" using * that by blast
  show "h' r ! k = h r ! k" if "N \<le> int k"
  proof -
    have "nat N \<le> k" using that by simp
    then show ?thesis using * by blast
  qed
qed

section \<open>Properties of the simulator\<close>

text \<open>
  In the theorems below a successful call returns the trajectories \<open>Sv\<close>, \<open>envv\<close>,
  \<open>spillv\<close> and the reference \<open>q\<close> of the release series, with the store \<open>h'\<close>;
  \<open>h\<close> is the store before the call, so that \<open>h Qreg ! t\<close> is the requested release
  \<open>u_req[t]\<close> and \<open>h' q ! t\<close> the regulated release \<open>Qreg[t]\<close> that the call leaves.
\<close>

text \<open>
  Claim C6 (mass balance). At every step \<open>t\<close> of a call that returns, the returned
  trajectories satisfy the water-balance equation
  \<open>S[t+1] = S[t] + I[t] - Qreg[t] - env[t] - E[t] - spill[t]\<close>. The equation holds with
  the series as they stand when the call returns; when the release series is a list of
  its own, these are the inflow and evaporation that the caller passed in.
\<close>

theorem mass_balance:
  assumes "syst_sim N I e d S0 Smax env_min Qreg h = (Inr (Sv, envv, spillv, q), h')"
    and "int t < N"
  shows "Sv ! Suc t = Sv ! t + h' I ! t - h' q ! t - envv ! t - h' e ! t - spillv ! t \<and>
         (Qreg \<noteq> I \<and> Qreg \<noteq> e \<longrightarrow>
            Sv ! Suc t = Sv ! t + h I ! t - h' q ! t - envv ! t - h e ! t - spillv ! t)"
proof (intro conjI impI)
  show eq: "Sv ! Suc t = Sv ! t + h' I ! t - h' q ! t - envv ! t - h' e ! t - spillv ! t"
    by (rule syst_sim_step(4)[OF assms])
  assume "Qreg \<noteq> I \<and> Qreg \<noteq> e"
  then have "h' I = h I" and "h' e = h e"
    using syst_sim_Inr(8)[OF assms(1)] by auto
  then show "Sv ! Suc t = Sv ! t + h I ! t - h' q ! t - envv ! t - h e ! t - spillv ! t"
    using eq by simp
qed

theorem mass_balance_witness:
  "syst_sim 1 0 1 2 3 100 4 3 (store4 [0] [0] [5] [5]) =
     (Inr ([3, 0], [3], [0], 3), store4 [0] [0] [5] [0]) \<and>
   int 0 < 1 \<and> (3 :: ref) \<noteq> 0 \<and> (3 :: ref) \<noteq> 1 \<and>
   [3, 0] ! Suc 0 =
     [3, 0] ! 0 + store4 [0] [0] [5] [0] 0 ! 0 - store4 [0] [0] [5] [0] 3 ! 0 - [3] ! 0
       - store4 [0] [0] [5] [0] 1 ! 0 - [0 :: real] ! 0 \<and>
   [3, 0] ! Suc 0 =
     [3, 0] ! 0 + store4 [0] [0] [5] [5] 0 ! 0 - store4 [0] [0] [5] [0] 3 ! 0 - [3] ! 0
       - store4 [0] [0] [5] [5] 1 ! 0 - [0 :: real] ! 0"
  using mass_balance[OF run_deficit, of 0] run_deficit by (simp add: store4_def)

text \<open>
  Claim C7 (release domination). At every step the regulated release that the call leaves
  in \<open>Qreg[t]\<close> does not exceed the release requested there before the call.
\<close>

theorem release_domination:
  assumes "syst_sim N I e d S0 Smax env_min Qreg h = (Inr (Sv, envv, spillv, q), h')"
    and "int t < N"
  shows "h' q ! t \<le> h Qreg ! t"
  using syst_sim_step(2)[OF assms] by (simp add: release_rule_def)

theorem release_domination_witness:
  "syst_sim 1 0 1 2 3 100 4 3 (store4 [0] [0] [5] [5]) =
     (Inr ([3, 0], [3], [0], 3), store4 [0] [0] [5] [0]) \<and> int 0 < 1 \<and>
   store4 [0] [0] [5] [0] 3 ! 0 \<le> store4 [0] [0] [5] [5] 3 ! 0"
  using release_domination[OF run_deficit, of 0] run_deficit by simp

text \<open>
  Claim C8 (spill only at capacity). At every step the spill is non-negative, and it is
  positive only if the storage before spilling, \<open>S[t] + I[t] - Qreg[t] - env[t] - E[t]\<close>,
  exceeds \<open>Smax\<close>. As for the mass balance, the series are read as they stand when the
  call returns, and as the caller passed them when the release series is a list of its
  own.
\<close>

theorem spill_only_at_capacity:
  assumes "syst_sim N I e d S0 Smax env_min Qreg h = (Inr (Sv, envv, spillv, q), h')"
    and "int t < N"
  shows "0 \<le> spillv ! t \<and>
         (0 < spillv ! t \<longrightarrow> Smax < Sv ! t + h' I ! t - h' q ! t - envv ! t - h' e ! t) \<and>
         (Qreg \<noteq> I \<and> Qreg \<noteq> e \<and> 0 < spillv ! t \<longrightarrow>
            Smax < Sv ! t + h I ! t - h' q ! t - envv ! t - h e ! t)"
proof (intro conjI impI)
  note sp = syst_sim_step(3)[OF assms]
  show "0 \<le> spillv ! t" using sp by linarith
  show *: "Smax < Sv ! t + h' I ! t - h' q ! t - envv ! t - h' e ! t" if "0 < spillv ! t"
    using sp that by linarith
  assume a: "Qreg \<noteq> I \<and> Qreg \<noteq> e \<and> 0 < spillv ! t"
  then have "h' I = h I" and "h' e = h e"
    using syst_sim_Inr(8)[OF assms(1)] by auto
  then show "Smax < Sv ! t + h I ! t - h' q ! t - envv ! t - h e ! t"
    using * a by simp
qed

theorem spill_only_at_capacity_witness:
  "syst_sim 1 0 1 2 90 100 2 3 (store4 [60] [0] [5] [5]) =
     (Inr ([90, 100], [2], [43], 3), store4 [60] [0] [5] [5]) \<and> int 0 < 1 \<and>
   (3 :: ref) \<noteq> 0 \<and> (3 :: ref) \<noteq> 1 \<and>
   0 \<le> [43 :: real] ! 0 \<and> 0 < [43 :: real] ! 0 \<and>
   100 < [90, 100] ! 0 + store4 [60] [0] [5] [5] 0 ! 0 - store4 [60] [0] [5] [5] 3 ! 0
           - [2] ! 0 - store4 [60] [0] [5] [5] 1 ! 0"
  using spill_only_at_capacity[OF run_spill, of 0] run_spill by (simp add: store4_def)

text \<open>
  Claim C1 as stated (well-formed inputs keep \<open>Smin \<le> S[t] \<le> Smax\<close>) fails for the lower
  bound. The function has no parameter \<open>Smin\<close>. With series of length 1, non-negative
  inflow, evaporation and demand, \<open>Smax = 100\<close> and \<open>S0 = 1\<close> (so any \<open>Smin\<close> between 0 and
  1 makes the call well-formed), an evaporation of 5 takes the storage to \<open>-4\<close>.
\<close>

theorem storage_bounds_counterexample:
  "syst_sim 1 0 1 2 1 100 0 3 (store4 [0] [5] [0] [0]) =
     (Inr ([1, - 4], [0], [0], 3), store4 [0] [5] [0] [0]) \<and>
   (0 :: real) \<le> 100 \<and> (0 :: real) \<le> 1 \<and> (1 :: real) \<le> 100 \<and>
   \<not> (0 :: real) \<le> [1, - 4] ! 1"
  using run_evaporation by simp

text \<open>
  Claim C1, amended. If \<open>S0 \<le> Smax\<close>, then \<open>S[t] \<le> Smax\<close> at every index \<open>t \<le> N\<close> of a
  call that returns: the spill term enforces the upper bound. No lower bound \<open>Smin\<close> is
  enforced; storage stays non-negative across a step, \<open>0 \<le> S[t+1]\<close>, when \<open>0 \<le> Smax\<close>,
  the evaporation of the step does not exceed storage plus inflow, the requested release
  does not exceed the demand, and the release series is a list of its own (not the one
  passed as inflow or evaporation).
\<close>

theorem storage_upper_bound:
  assumes "syst_sim N I e d S0 Smax env_min Qreg h = (Inr (Sv, envv, spillv, q), h')"
    and "S0 \<le> Smax"
  shows "(int t \<le> N \<longrightarrow> Sv ! t \<le> Smax) \<and>
         (int t < N \<and> Qreg \<noteq> I \<and> Qreg \<noteq> e \<and> 0 \<le> Smax \<and>
            h e ! t \<le> Sv ! t + h I ! t \<and> h Qreg ! t \<le> h d ! t
          \<longrightarrow> 0 \<le> Sv ! Suc t)"
proof (intro conjI impI)
  assume t: "int t \<le> N"
  show "Sv ! t \<le> Smax"
  proof (cases t)
    case 0
    then show ?thesis using syst_sim_Inr(6)[OF assms(1)] assms(2) by simp
  next
    case (Suc k)
    then have k: "int k < N" using t by simp
    show ?thesis
      using syst_sim_step(3,4)[OF assms(1) k] unfolding Suc by linarith
  qed
next
  assume a: "int t < N \<and> Qreg \<noteq> I \<and> Qreg \<noteq> e \<and> 0 \<le> Smax \<and>
            h e ! t \<le> Sv ! t + h I ! t \<and> h Qreg ! t \<le> h d ! t"
  then have t: "int t < N" by simp
  have hI: "h' I = h I" and he: "h' e = h e"
    using syst_sim_Inr(8)[OF assms(1)] a by auto
  note st = syst_sim_step[OF assms(1) t]
  let ?a = "Sv ! t + h I ! t - h e ! t"
  have a0: "0 \<le> ?a" using a by simp
  have env_le: "envv ! t \<le> ?a"
    using st(1) a0 unfolding env_rule_def by (simp split: if_splits)
  have q_le: "h' q ! t \<le> ?a - envv ! t"
    using st(2) env_le a unfolding release_rule_def by (simp split: if_splits)
  show "0 \<le> Sv ! Suc t"
    using st(3,4) q_le a unfolding hI he by linarith
qed

theorem storage_upper_bound_witness:
  "syst_sim 1 0 1 2 90 100 2 3 (store4 [60] [0] [5] [5]) =
     (Inr ([90, 100], [2], [43], 3), store4 [60] [0] [5] [5]) \<and> (90 :: real) \<le> 100 \<and>
   int 0 \<le> 1 \<and> [90, 100 :: real] ! 0 \<le> 100 \<and>
   int 0 < 1 \<and> (3 :: ref) \<noteq> 0 \<and> (3 :: ref) \<noteq> 1 \<and> (0 :: real) \<le> 100 \<and>
   store4 [60] [0] [5] [5] 1 ! 0 \<le> [90, 100] ! 0 + store4 [60] [0] [5] [5] 0 ! 0 \<and>
   store4 [60] [0] [5] [5] 3 ! 0 \<le> store4 [60] [0] [5] [5] 2 ! 0 \<and>
   0 \<le> [90, 100 :: real] ! Suc 0"
  using storage_upper_bound[OF run_spill, of 0] run_spill by (simp add: store4_def)

text \<open>
  Claim C2 as stated (the release is clamped whenever the requested release exceeds the
  water left after the environmental release) fails: the test of the code is on the
  demand \<open>d[t]\<close>. With storage 10, no inflow, no demand and a requested release of 50, the
  request exceeds the remaining 10 but is left at 50, not clamped to 10.
\<close>

theorem release_clamp_counterexample:
  "syst_sim 1 0 1 2 10 100 0 3 (store4 [0] [0] [0] [50]) =
     (Inr ([10, - 40], [0], [0], 3), store4 [0] [0] [0] [50]) \<and>
   store4 [0] [0] [0] [50] 3 ! 0 >
     [10, - 40] ! 0 + store4 [0] [0] [0] [50] 0 ! 0 - store4 [0] [0] [0] [50] 1 ! 0 - [0] ! 0 \<and>
   store4 [0] [0] [0] [50] 3 ! 0 \<noteq>
     min (store4 [0] [0] [0] [50] 3 ! 0)
       (max 0 ([10, - 40] ! 0 + store4 [0] [0] [0] [50] 0 ! 0 - store4 [0] [0] [0] [50] 1 ! 0 - [0] ! 0))"
  using run_overdraw by (simp add: store4_def)

text \<open>
  Claim C2, amended. At every step, if the demand \<open>d[t]\<close> is at least the water left after
  the environmental release, \<open>S[t] + I[t] - E[t] - env[t]\<close>, then
  \<open>Qreg[t] = min(u_req[t], max(0, S[t] + I[t] - E[t] - env[t]))\<close>, and otherwise
  \<open>Qreg[t] = u_req[t]\<close>. When the requested release does not exceed the demand, this is the
  rule of the claim, with the test on \<open>u_req[t]\<close>.
\<close>

theorem release_clamp_on_demand:
  assumes "syst_sim N I e d S0 Smax env_min Qreg h = (Inr (Sv, envv, spillv, q), h')"
    and "int t < N"
  shows "h' q ! t =
           (if h d ! t \<ge> Sv ! t + h I ! t - h e ! t - envv ! t
            then min (h Qreg ! t) (max 0 (Sv ! t + h I ! t - h e ! t - envv ! t))
            else h Qreg ! t) \<and>
         (h Qreg ! t \<le> h d ! t \<longrightarrow>
            h' q ! t =
              (if h Qreg ! t > Sv ! t + h I ! t - h e ! t - envv ! t
               then min (h Qreg ! t) (max 0 (Sv ! t + h I ! t - h e ! t - envv ! t))
               else h Qreg ! t))"
  using syst_sim_step(2)[OF assms] unfolding release_rule_def by (simp split: if_splits)

theorem release_clamp_on_demand_witness:
  "syst_sim 1 0 1 2 3 100 4 3 (store4 [0] [0] [5] [5]) =
     (Inr ([3, 0], [3], [0], 3), store4 [0] [0] [5] [0]) \<and> int 0 < 1 \<and>
   store4 [0] [0] [5] [5] 2 ! 0 \<ge>
     [3, 0] ! 0 + store4 [0] [0] [5] [5] 0 ! 0 - store4 [0] [0] [5] [5] 1 ! 0 - [3] ! 0 \<and>
   store4 [0] [0] [5] [5] 3 ! 0 \<le> store4 [0] [0] [5] [5] 2 ! 0 \<and>
   store4 [0] [0] [5] [0] 3 ! 0 =
     min (store4 [0] [0] [5] [5] 3 ! 0)
       (max 0 ([3, 0] ! 0 + store4 [0] [0] [5] [5] 0 ! 0 - store4 [0] [0] [5] [5] 1 ! 0 - [3] ! 0))"
  using release_clamp_on_demand[OF run_deficit, of 0] run_deficit by (simp add: store4_def)

text \<open>
  Claim C3 as stated (the environmental release equals \<open>env_min\<close> unless insufficient
  water is available at that step) fails: the first test of the loop body caps the
  release at the inflow whatever the storage. With storage 50, inflow 1, no evaporation
  and \<open>env_min = 2\<close>, the water available is 51, well above \<open>env_min\<close>, and the release is
  1.
\<close>

theorem env_release_counterexample:
  "syst_sim 1 0 1 2 50 100 2 3 (store4 [1] [0] [5] [5]) =
     (Inr ([50, 45], [1], [0], 3), store4 [1] [0] [5] [5]) \<and>
   2 < [50, 45] ! 0 + store4 [1] [0] [5] [5] 0 ! 0 - store4 [1] [0] [5] [5] 1 ! 0 \<and>
   [1 :: real] ! 0 \<noteq> 2"
  using run_inflow_cap by (simp add: store4_def)

text \<open>
  Claim C3, amended. At every step the environmental release is
  \<open>max(0, S[t] + I[t] - E[t])\<close> if \<open>env_min \<ge> S[t] + I[t] - E[t]\<close>; otherwise it is the
  inflow \<open>I[t]\<close> if \<open>env_min \<ge> I[t]\<close>; otherwise it is \<open>env_min\<close>. So it equals \<open>env_min\<close>
  unless the resource or the inflow of the step does not exceed \<open>env_min\<close>, and then it is
  reduced to the value above. With a non-negative inflow and a non-negative \<open>env_min\<close>
  it is never negative and never above \<open>env_min\<close>.
\<close>

theorem env_release_rule:
  assumes "syst_sim N I e d S0 Smax env_min Qreg h = (Inr (Sv, envv, spillv, q), h')"
    and "int t < N"
  shows "envv ! t =
           (if env_min \<ge> Sv ! t + h I ! t - h e ! t then max 0 (Sv ! t + h I ! t - h e ! t)
            else if env_min \<ge> h I ! t then h I ! t
            else env_min) \<and>
         (0 \<le> h I ! t \<and> 0 \<le> env_min \<longrightarrow> 0 \<le> envv ! t \<and> envv ! t \<le> env_min)"
proof (intro conjI impI)
  note ev = syst_sim_step(1)[OF assms]
  show "envv ! t =
           (if env_min \<ge> Sv ! t + h I ! t - h e ! t then max 0 (Sv ! t + h I ! t - h e ! t)
            else if env_min \<ge> h I ! t then h I ! t
            else env_min)"
    using ev by (simp only: env_rule_def)
  assume "0 \<le> h I ! t \<and> 0 \<le> env_min"
  then show "0 \<le> envv ! t" and "envv ! t \<le> env_min"
    using ev unfolding env_rule_def by (simp_all split: if_splits)
qed

theorem env_release_rule_witness:
  "syst_sim 1 0 1 2 3 100 4 3 (store4 [0] [0] [5] [5]) =
     (Inr ([3, 0], [3], [0], 3), store4 [0] [0] [5] [0]) \<and> int 0 < 1 \<and>
   4 \<ge> [3, 0] ! 0 + store4 [0] [0] [5] [5] 0 ! 0 - store4 [0] [0] [5] [5] 1 ! 0 \<and>
   [3 :: real] ! 0 =
     max 0 ([3, 0] ! 0 + store4 [0] [0] [5] [5] 0 ! 0 - store4 [0] [0] [5] [5] 1 ! 0) \<and>
   0 \<le> store4 [0] [0] [5] [5] 0 ! 0 \<and> (0 :: real) \<le> 4 \<and>
   0 \<le> [3 :: real] ! 0 \<and> [3 :: real] ! 0 \<le> 4"
  using env_release_rule[OF run_deficit, of 0] run_deficit by (simp add: store4_def)

text \<open>
  Claim C4 as stated (the call fails, before any step, exactly on mismatched lengths,
  \<open>Smin > Smax\<close> or \<open>S0\<close> outside the bounds) fails: the function checks none of these. A
  call with \<open>S0 = 200\<close> above \<open>Smax = 100\<close> returns trajectories; a call with \<open>N = 2\<close> on
  series of length 1 fails only at the second step, after the first has overwritten
  \<open>Qreg[0]\<close>.
\<close>

theorem invalid_input_counterexample:
  "syst_sim 1 0 1 2 200 100 2 3 (store4 [10] [0] [5] [5]) =
     (Inr ([200, 100], [2], [103], 3), store4 [10] [0] [5] [5]) \<and> \<not> (200 :: real) \<le> 100 \<and>
   syst_sim 2 0 1 2 3 100 4 3 (store4 [0] [0] [5] [5]) =
     (Inl IndexError, store4 [0] [0] [5] [0]) \<and>
   store4 [0] [0] [5] [0] 3 \<noteq> store4 [0] [0] [5] [5] 3"
  using run_overfull run_short by (simp add: store4_def)

text \<open>
  Claim C4, amended. A call fails exactly when \<open>N < 0\<close> or one of the four series
  \<open>I\<close>, \<open>e\<close>, \<open>d\<close>, \<open>Qreg\<close> is shorter than \<open>N\<close>, and then with the index error of the
  first missing entry, returning no trajectories; no other input makes it fail.
\<close>

theorem syst_sim_fails_iff:
  "fst (syst_sim N I e d S0 Smax env_min Qreg h) = Inl IndexError \<longleftrightarrow>
     N < 0 \<or> int (length (h I)) < N \<or> int (length (h e)) < N \<or>
     int (length (h d)) < N \<or> int (length (h Qreg)) < N"
proof (cases "0 \<le> N")
  case False
  then show ?thesis by (simp add: syst_sim_def)
next
  case True
  let ?w0 = "\<lparr>S = (replicate (nat (N + 1)) 0)[0 := S0], spill = replicate (nat N) 0,
              env = replicate (nat N) env_min\<rparr>"
  have n1: "nat (N + 1) = Suc (nat N)" using True by simp
  show ?thesis
  proof (cases "nat N \<le> length (h I) \<and> nat N \<le> length (h e) \<and> nat N \<le> length (h d) \<and>
                nat N \<le> length (h Qreg)")
    case ok: True
    then obtain w' h' where "loop I e d Smax env_min Qreg [0..<nat N] h ?w0 = (Inr w', h')"
      using loop_upt_ok[of "nat N" ?w0 h I e d Qreg Smax env_min] by (auto simp: n1)
    then have "fst (syst_sim N I e d S0 Smax env_min Qreg h) \<noteq> Inl IndexError"
      using True by (simp add: syst_sim_def)
    then show ?thesis using ok True by auto
  next
    case short: False
    obtain res h' where r: "syst_sim N I e d S0 Smax env_min Qreg h = (res, h')"
      by (cases "syst_sim N I e d S0 Smax env_min Qreg h")
    have "res = Inl IndexError"
    proof (cases res)
      case (Inl err)
      then show ?thesis by (cases err) simp
    next
      case (Inr x)
      obtain Sv envv spillv q where "x = (Sv, envv, spillv, q)" by (cases x)
      then have "syst_sim N I e d S0 Smax env_min Qreg h = (Inr (Sv, envv, spillv, q), h')"
        using r Inr by simp
      from syst_sim_Inr(10-13)[OF this] short show ?thesis by simp
    qed
    then show ?thesis using short True r by auto
  qed
qed

theorem syst_sim_fails_iff_witness:
  "fst (syst_sim 2 0 1 2 3 100 4 3 (store4 [0] [0] [5] [5])) = Inl IndexError \<and>
   int (length (store4 [0] [0] [5] [5] 0)) < 2"
  using syst_sim_fails_iff[of 2 0 1 2 3 100 4 3 "store4 [0] [0] [5] [5]"]
  by (simp add: store4_def)

text \<open>
  Claim C5 as stated (every caller-supplied array holds the same values after the call)
  fails for the release series: the deficit scenario leaves the caller's \<open>Qreg\<close> at
  \<open>[0]\<close> where it was \<open>[5]\<close>.
\<close>

theorem caller_arrays_counterexample:
  "syst_sim 1 0 1 2 3 100 4 3 (store4 [0] [0] [5] [5]) =
     (Inr ([3, 0], [3], [0], 3), store4 [0] [0] [5] [0]) \<and>
   store4 [0] [0] [5] [0] 3 \<noteq> store4 [0] [0] [5] [5] 3"
  using run_deficit by (simp add: store4_def)

text \<open>
  Claim C5, amended. A call, returning or failing, assigns to the caller's release series
  \<open>Qreg\<close> only: every other series holds the same values afterwards, \<open>Qreg\<close> keeps its
  length and its entries from index \<open>N\<close> on, and the release trajectory returned is that
  same list of the caller, not a copy.
\<close>

theorem only_Qreg_assigned:
  assumes "syst_sim N I e d S0 Smax env_min Qreg h = (res, h')"
  shows "(r \<noteq> Qreg \<longrightarrow> h' r = h r) \<and> length (h' Qreg) = length (h Qreg) \<and>
         (N \<le> int k \<longrightarrow> h' Qreg ! k = h Qreg ! k) \<and>
         (res = Inr (Sv, envv, spillv, q) \<longrightarrow> q = Qreg)"
proof (intro conjI impI)
  show "h' r = h r" if "r \<noteq> Qreg" using syst_sim_heap(2)[OF assms that] .
  show "length (h' Qreg) = length (h Qreg)" using syst_sim_heap(1)[OF assms] .
  show "h' Qreg ! k = h Qreg ! k" if "N \<le> int k" using syst_sim_heap(3)[OF assms that] .
  show "q = Qreg" if "res = Inr (Sv, envv, spillv, q)"
    using syst_sim_Inr(2)[of N I e d S0 Smax env_min Qreg h Sv envv spillv q h'] assms that
    by simp
qed

theorem only_Qreg_assigned_witness:
  "syst_sim 1 0 1 2 3 100 4 3 (store4 [0] [0] [5] [5, 7]) =
     (Inr ([3, 0], [3], [0], 3), store4 [0] [0] [5] [0, 7]) \<and>
   (2 :: ref) \<noteq> 3 \<and> store4 [0] [0] [5] [0, 7] 2 = store4 [0] [0] [5] [5, 7] 2 \<and>
   length (store4 [0] [0] [5] [0, 7] 3) = length (store4 [0] [0] [5] [5, 7] 3) \<and>
   (1 :: int) \<le> int 1 \<and> store4 [0] [0] [5] [0, 7] 3 ! 1 = store4 [0] [0] [5] [5, 7] 3 ! 1 \<and>
   (3 :: ref) = 3"
  using only_Qreg_assigned[OF run_long_release, of 2 1 "[3, 0]" "[3]" "[0]" 3] run_long_release
  by (simp add: store4_def)

text \<open>
  Claim C10 (environmental release above the inflow). At a step with \<open>I[t] \<le> env_min\<close>,
  \<open>env_min \<ge> S[t] + I[t] - E[t]\<close> and \<open>S[t] > E[t]\<close>, the second test overwrites the
  inflow-capped value: \<open>env[t] = max(0, S[t] + I[t] - E[t])\<close>, which exceeds \<open>I[t]\<close>. The
  witness is the run with \<open>S0 = 5\<close>, \<open>I = [1]\<close>, \<open>E = [0]\<close>, \<open>env_min = 6\<close>, where
  \<open>env = [6]\<close>.
\<close>

theorem env_exceeds_inflow:
  assumes "syst_sim N I e d S0 Smax env_min Qreg h = (Inr (Sv, envv, spillv, q), h')"
    and "int t < N"
    and "h I ! t \<le> env_min" and "env_min \<ge> Sv ! t + h I ! t - h e ! t" and "Sv ! t > h e ! t"
  shows "envv ! t = max 0 (Sv ! t + h I ! t - h e ! t) \<and> envv ! t > h I ! t"
  using syst_sim_step(1)[OF assms(1,2)] assms(3,4,5) unfolding env_rule_def
  by (simp split: if_splits)

theorem env_exceeds_inflow_witness:
  "syst_sim 1 0 1 2 5 100 6 3 (store4 [1] [0] [0] [0]) =
     (Inr ([5, 0], [6], [0], 3), store4 [1] [0] [0] [0]) \<and> int 0 < 1 \<and>
   0 \<le> store4 [1] [0] [0] [0] 0 ! 0 \<and>
   store4 [1] [0] [0] [0] 0 ! 0 \<le> 6 \<and>
   6 \<ge> [5, 0] ! 0 + store4 [1] [0] [0] [0] 0 ! 0 - store4 [1] [0] [0] [0] 1 ! 0 \<and>
   [5, 0] ! 0 > store4 [1] [0] [0] [0] 1 ! 0 \<and>
   [6 :: real] ! 0 = max 0 ([5, 0] ! 0 + store4 [1] [0] [0] [0] 0 ! 0 - store4 [1] [0] [0] [0] 1 ! 0) \<and>
   [6 :: real] ! 0 > store4 [1] [0] [0] [0] 0 ! 0"
  using env_exceeds_inflow[OF run_low_inflow, of 0] run_low_inflow by (simp add: store4_def)

section \<open>Continuity of the log-exponential policy\<close>

lemma log_branch_at_ref:
  assumes "0 < s_frac_ref"
  shows "log_branch u_frac_min s_frac_ref alpha u_ref s_frac_ref = u_ref"
proof -
  have "s_frac_ref powr alpha \<noteq> 0" using assms by simp
  then have "1 / (s_frac_ref powr alpha) * (exp (1 - u_frac_min) - 1) * s_frac_ref powr alpha + 1
               = exp (1 - u_frac_min)"
    by (simp add: field_simps)
  then show ?thesis
    by (simp add: log_branch_def Let_def)
qed

lemma exp_branch_at_ref: "exp_branch s_frac_ref b u_ref s_frac_ref = u_ref"
  by (simp add: exp_branch_def)

lemma isCont_log_branch:
  assumes "0 < s_frac_ref"
  shows "isCont (log_branch u_frac_min s_frac_ref alpha u_ref) s_frac_ref"
proof -
  have "1 / (s_frac_ref powr alpha) * (exp (1 - u_frac_min) - 1) * s_frac_ref powr alpha + 1
               = exp (1 - u_frac_min)"
    using assms by (simp add: field_simps)
  then have pos: "0 < 1 / (s_frac_ref powr alpha) * (exp (1 - u_frac_min) - 1) * s_frac_ref powr alpha + 1"
    by simp
  show ?thesis
    unfolding log_branch_def Let_def
    using assms pos by (intro continuous_intros) simp_all
qed

lemma isCont_exp_branch: "isCont (exp_branch s_frac_ref b u_ref) x"
  unfolding exp_branch_def by (intro continuous_intros)

lemma isCont_log_exponential_curve:
  assumes "0 < s_frac_ref"
  shows "isCont (log_exponential_curve u_frac_min s_frac_ref alpha b u_ref) s_frac_ref"
proof -
  let ?f = "log_exponential_curve u_frac_min s_frac_ref alpha b u_ref"
  let ?l = "log_branch u_frac_min s_frac_ref alpha u_ref"
  let ?r = "exp_branch s_frac_ref b u_ref"
  have fa: "?f s_frac_ref = u_ref"
    by (simp add: log_exponential_curve_def exp_branch_at_ref)
  have l: "(?l \<longlongrightarrow> u_ref) (at_left s_frac_ref)"
    using isCont_log_branch[OF assms, of u_frac_min alpha u_ref] log_branch_at_ref[OF assms, of u_frac_min alpha u_ref]
    by (metis continuous_at_split continuous_within)
  have r: "(?r \<longlongrightarrow> u_ref) (at_right s_frac_ref)"
    using isCont_exp_branch[where x=s_frac_ref and s_frac_ref=s_frac_ref and b=b and u_ref=u_ref]
      exp_branch_at_ref[of s_frac_ref b u_ref]
    by (metis continuous_at_split continuous_within)
  have fl: "(?f \<longlongrightarrow> u_ref) (at_left s_frac_ref)"
    by (rule tendsto_cong[THEN iffD2, OF _ l])
      (simp add: eventually_at_filter log_exponential_curve_def)
  have fr: "(?f \<longlongrightarrow> u_ref) (at_right s_frac_ref)"
    by (rule tendsto_cong[THEN iffD2, OF _ r])
      (simp add: eventually_at_filter log_exponential_curve_def)
  show ?thesis
    unfolding isCont_def fa using fl fr by (simp add: filterlim_at_split)
qed

text \<open>
  Claim C9 (policy continuity). For \<open>u_frac_min\<close> and \<open>s_frac_ref\<close> in (0,1), \<open>alpha > 0\<close>,
  \<open>u_ref > 0\<close> and any \<open>b\<close>, both segments of the log-exponential policy take the value
  \<open>u_ref\<close> at \<open>storage_fraction = s_frac_ref\<close>, the operation returns \<open>u_ref\<close> there, and
  the release curve is continuous at that point.
\<close>

theorem log_exponential_continuity:
  assumes "0 < u_frac_min" and "u_frac_min < 1" and "0 < s_frac_ref" and "s_frac_ref < 1"
    and "0 < alpha" and "0 < u_ref"
  shows "log_branch u_frac_min s_frac_ref alpha u_ref s_frac_ref = u_ref \<and>
         exp_branch s_frac_ref b u_ref s_frac_ref = u_ref \<and>
         log_exponential_release u_frac_min s_frac_ref alpha b u_ref s_frac_ref = Inr u_ref \<and>
         isCont (log_exponential_curve u_frac_min s_frac_ref alpha b u_ref) s_frac_ref"
  using assms log_branch_at_ref[of s_frac_ref u_frac_min alpha u_ref]
    exp_branch_at_ref[of s_frac_ref b u_ref]
    isCont_log_exponential_curve[of s_frac_ref u_frac_min alpha b u_ref]
  by (simp add: log_exponential_release_def log_exponential_curve_def)

theorem log_exponential_continuity_witness:
  "(0 :: real) < 1 / 2 \<and> (1 / 2 :: real) < 1 \<and> (0 :: real) < 4 / 5 \<and> (4 / 5 :: real) < 1 \<and>
   (0 :: real) < 2 / 3 \<and> (0 :: real) < 15 \<and>
   log_branch (1 / 2) (4 / 5) (2 / 3) 15 (4 / 5) = 15 \<and>
   exp_branch (4 / 5) 10 15 (4 / 5) = 15 \<and>
   log_exponential_release (1 / 2) (4 / 5) (2 / 3) 10 15 (4 / 5) = Inr 15 \<and>
   isCont (log_exponential_curve (1 / 2) (4 / 5) (2 / 3) 10 15) (4 / 5)"
  using log_exponential_continuity[of "1 / 2" "4 / 5" "2 / 3" 15 10] by simp

end
